theory Spec2Isabelle
  imports Main "HOL-Library.AList"
begin

section \<open>JavaScript values\<close>

text \<open>
  The server, a Hono application that imports \<^verbatim>\<open>./kv_store.tsx\<close> and serves the
  routes under \<^verbatim>\<open>/make-server-f11ea3c3\<close>, works on untyped JSON.
  A value is \<^verbatim>\<open>undefined\<close>, \<^verbatim>\<open>null\<close>, a boolean, a number, a string or an
  object. Of an object only the properties named by an array index are kept (the
  answer maps are declared \<^verbatim>\<open>{ [key: number]: string }\<close> by the upload form, and
  the server reads no other property of them). Numbers are the integers; strings
  are character lists.
\<close>

datatype jsval =
    JUndefined
  | JNull
  | JBool bool
  | JNum int
  | JStr string
  | JObj "(nat \<times> jsval) list"

text \<open>ToBoolean: what \<^verbatim>\<open>!v\<close>, \<^verbatim>\<open>v && ...\<close> and \<^verbatim>\<open>v ? ... : ...\<close> test.\<close>

fun truthy :: "jsval \<Rightarrow> bool" where
  "truthy JUndefined = False"
| "truthy JNull = False"
| "truthy (JBool b) = b"
| "truthy (JNum n) = (n \<noteq> 0)"
| "truthy (JStr s) = (s \<noteq> [])"
| "truthy (JObj kvs) = True"

text \<open>The undetected marker of the data model: \<^verbatim>\<open>null\<close> or an absent entry.\<close>

fun nullish :: "jsval \<Rightarrow> bool" where
  "nullish JUndefined = True"
| "nullish JNull = True"
| "nullish v = False"

text \<open>
  Strict equality \<^verbatim>\<open>a === b\<close>. Primitives are compared by value. Objects are
  compared by reference; the two operands of every comparison in the server are
  read from two different JSON documents, so two objects are never identical.
\<close>

fun strict_eq :: "jsval \<Rightarrow> jsval \<Rightarrow> bool" where
  "strict_eq (JObj kvs) b = False"
| "strict_eq a (JObj kvs) = False"
| "strict_eq a b = (a = b)"

datatype error = TypeError

text \<open>
  The property read \<^verbatim>\<open>v[q]\<close> for a number \<^verbatim>\<open>q\<close>: a TypeError on \<^verbatim>\<open>undefined\<close>
  and \<^verbatim>\<open>null\<close>, the character at the index for a string, \<^verbatim>\<open>undefined\<close> for a
  property that is not there.
\<close>

fun get_prop :: "jsval \<Rightarrow> nat \<Rightarrow> error + jsval" where
  "get_prop JUndefined q = Inl TypeError"
| "get_prop JNull q = Inl TypeError"
| "get_prop (JObj kvs) q = Inr (case map_of kvs q of None \<Rightarrow> JUndefined | Some v \<Rightarrow> v)"
| "get_prop (JStr s) q = Inr (if q < length s then JStr [s ! q] else JUndefined)"
| "get_prop (JBool b) q = Inr JUndefined"
| "get_prop (JNum n) q = Inr JUndefined"

text \<open>The value of \<^verbatim>\<open>v[q]\<close> where the read does not throw.\<close>

definition read :: "jsval \<Rightarrow> nat \<Rightarrow> jsval" where
  "read v q = (case get_prop v q of Inl e \<Rightarrow> JUndefined | Inr x \<Rightarrow> x)"

section \<open>Loops\<close>

text \<open>
  \<^verbatim>\<open>for (let q = a; q <= n; q++) { body }\<close> over a state; an exception in the body
  leaves the loop.
\<close>

function for_loop :: "nat \<Rightarrow> nat \<Rightarrow> (nat \<Rightarrow> 's \<Rightarrow> error + 's) \<Rightarrow> 's \<Rightarrow> error + 's" where
  "for_loop q n body s =
     (if q \<le> n
      then (case body q s of Inl e \<Rightarrow> Inl e | Inr s' \<Rightarrow> for_loop (q + 1) n body s')
      else Inr s)"
  by pat_completeness auto
termination
  by (relation "measure (\<lambda>(q, n, body, s). Suc n - q)") auto

declare for_loop.simps [simp del]

text \<open>The state after a body that does not throw.\<close>

definition run :: "(nat \<Rightarrow> 's \<Rightarrow> error + 's) \<Rightarrow> nat \<Rightarrow> 's \<Rightarrow> 's" where
  "run body q s = (case body q s of Inl e \<Rightarrow> s | Inr s' \<Rightarrow> s')"

section \<open>calculateScores\<close>

record scores =
  totalScore :: int
  subjectScores :: "(string \<times> int) list"

record subject_range =
  subject :: string
  start :: nat
  end' :: nat

definition subjectRanges :: "subject_range list" where
  "subjectRanges =
     [\<lparr>subject = ''Data Analytics'', start = 1, end' = 20\<rparr>,
      \<lparr>subject = ''Machine Learning'', start = 21, end' = 40\<rparr>,
      \<lparr>subject = ''Python Programming'', start = 41, end' = 60\<rparr>,
      \<lparr>subject = ''Statistics'', start = 61, end' = 80\<rparr>,
      \<lparr>subject = ''SQL & Databases'', start = 81, end' = 100\<rparr>]"

definition initialScores :: scores where
  "initialScores =
     \<lparr>totalScore = 0,
      subjectScores =
        [(''Data Analytics'', 0),
         (''Machine Learning'', 0),
         (''Python Programming'', 0),
         (''Statistics'', 0),
         (''SQL & Databases'', 0)]\<rparr>"

text \<open>
  \<^verbatim>\<open>subjectScores[k]++\<close> on a property that exists. The only keys it is called
  with are the subjects of \<open>subjectRanges\<close>, all of them properties of the
  initial object, and the increment keeps the properties (lemmas
  \<open>find_subjectRange\<close> and \<open>map_fst_increment\<close>).
\<close>

fun increment :: "string \<Rightarrow> (string \<times> int) list \<Rightarrow> (string \<times> int) list" where
  "increment k [] = []"
| "increment k ((k', v) # kvs) =
     (if k' = k then (k', v + 1) # kvs else (k', v) # increment k kvs)"

definition score_step :: "jsval \<Rightarrow> jsval \<Rightarrow> nat \<Rightarrow> scores \<Rightarrow> error + scores" where
  "score_step detectedAnswers correctAnswers q st =
     (case get_prop detectedAnswers q of
        Inl e \<Rightarrow> Inl e
      | Inr detected \<Rightarrow>
          (case get_prop correctAnswers q of
             Inl e \<Rightarrow> Inl e
           | Inr correct \<Rightarrow>
               Inr (if truthy detected \<and> strict_eq detected correct
                    then (let st1 = st\<lparr>totalScore := totalScore st + 1\<rparr>
                          in case find (\<lambda>range. q \<ge> start range \<and> q \<le> end' range) subjectRanges of
                               None \<Rightarrow> st1
                             | Some subjectRange \<Rightarrow>
                                 st1\<lparr>subjectScores :=
                                       increment (subject subjectRange) (subjectScores st1)\<rparr>)
                    else st)))"

text \<open>The test \<^verbatim>\<open>detected && detected === correct\<close> at question \<open>q\<close>.\<close>

definition answered_correctly :: "jsval \<Rightarrow> jsval \<Rightarrow> nat \<Rightarrow> bool" where
  "answered_correctly detectedAnswers correctAnswers q \<longleftrightarrow>
     truthy (read detectedAnswers q)
     \<and> strict_eq (read detectedAnswers q) (read correctAnswers q)"

definition calculateScores :: "jsval \<Rightarrow> jsval \<Rightarrow> error + scores" where
  "calculateScores detectedAnswers correctAnswers =
     for_loop 1 100 (score_step detectedAnswers correctAnswers) initialScores"

section \<open>generateAnswerComparison\<close>

record comparison_entry =
  questionNumber :: nat
  entry_subject :: string
  detectedAnswer :: jsval
  correctAnswer :: jsval
  isCorrect :: jsval
  status :: string

text \<open>
  The entry built by one pass of the loop body from \<open>q\<close> and the two values
  read. \<^verbatim>\<open>detected && detected === correct\<close> is \<open>detected\<close> itself when that is
  falsy and the boolean of the comparison otherwise. The initial label
  \<^verbatim>\<open>'Unknown'\<close> is overwritten on every branch of the chain.
\<close>

definition make_entry :: "nat \<Rightarrow> jsval \<Rightarrow> jsval \<Rightarrow> comparison_entry" where
  "make_entry q detected correct =
     (let isCorrect = (if truthy detected then JBool (strict_eq detected correct) else detected);
          subject = (if q \<le> 20 then ''Data Analytics''
                     else if q \<le> 40 then ''Machine Learning''
                     else if q \<le> 60 then ''Python Programming''
                     else if q \<le> 80 then ''Statistics''
                     else ''SQL & Databases'')
      in \<lparr>questionNumber = q,
          entry_subject = subject,
          detectedAnswer = detected,
          correctAnswer = correct,
          isCorrect = isCorrect,
          status = (if truthy detected
                    then (if truthy isCorrect then ''correct'' else ''incorrect'')
                    else ''undetected'')\<rparr>)"

definition compare_step ::
  "jsval \<Rightarrow> jsval \<Rightarrow> nat \<Rightarrow> comparison_entry list \<Rightarrow> error + comparison_entry list" where
  "compare_step detectedAnswers correctAnswers q comparison =
     (case get_prop detectedAnswers q of
        Inl e \<Rightarrow> Inl e
      | Inr detected \<Rightarrow>
          (case get_prop correctAnswers q of
             Inl e \<Rightarrow> Inl e
           | Inr correct \<Rightarrow> Inr (comparison @ [make_entry q detected correct])))"

text \<open>The third parameter, \<open>subjects\<close>, is never read by the function.\<close>

definition generateAnswerComparison ::
  "jsval \<Rightarrow> jsval \<Rightarrow> 'a \<Rightarrow> error + comparison_entry list" where
  "generateAnswerComparison detectedAnswers correctAnswers subjects =
     for_loop 1 100 (compare_step detectedAnswers correctAnswers) []"

section \<open>Answer keys and the two operations of the specification\<close>

text \<open>
  An entry of \<open>subjects\<close> as the upload form sends it:
  \<^verbatim>\<open>{ name: 'Data Analytics', questions: '1-20' }\<close>.
\<close>

record subject_decl =
  name :: string
  questions :: string

record answer_key =
  key_id :: string
  examName :: jsval
  setVersion :: jsval
  totalQuestions :: nat
  answers :: jsval
  subjects :: "subject_decl list"
  uploadDate :: string

text \<open>
  \<open>score\<close> and \<open>compare\<close> as the routes call them:
  \<^verbatim>\<open>calculateScores(detectedAnswers, answerKey.answers)\<close> and
  \<^verbatim>\<open>generateAnswerComparison(evaluation.detectedAnswers, answerKey.answers, answerKey.subjects)\<close>.
\<close>

definition score :: "jsval \<Rightarrow> answer_key \<Rightarrow> error + scores" where
  "score detectedAnswers answerKey = calculateScores detectedAnswers (answers answerKey)"

definition compare :: "jsval \<Rightarrow> answer_key \<Rightarrow> error + comparison_entry list" where
  "compare detectedAnswers answerKey =
     generateAnswerComparison detectedAnswers (answers answerKey) (subjects answerKey)"

section \<open>simulateOMRProcessing\<close>

text \<open>
  What the handlers take from outside: the outcomes of \<^verbatim>\<open>Math.random()\<close>, per
  question the test \<^verbatim>\<open>Math.random() > 0.05\<close> and the index
  \<^verbatim>\<open>Math.floor(Math.random() * 4)\<close>, and the clock.
\<close>

record env =
  detection_draw :: "nat \<Rightarrow> bool"
  option_draw :: "nat \<Rightarrow> nat"
  date_now :: string
  processing_time :: string
  iso_date :: string

definition options :: "string list" where
  "options = [''A'', ''B'', ''C'', ''D'']"

text \<open>
  The value assigned to \<^verbatim>\<open>answers[i]\<close>: the option at the drawn index, where
  the array read \<^verbatim>\<open>options[k]\<close> is \<^verbatim>\<open>undefined\<close> beyond the array, or
  \<^verbatim>\<open>null\<close>.
\<close>

definition drawn_answer :: "env \<Rightarrow> nat \<Rightarrow> jsval" where
  "drawn_answer e i =
     (if detection_draw e i
      then (if option_draw e i < length options
            then JStr (options ! option_draw e i) else JUndefined)
      else JNull)"

text \<open>The local object \<^verbatim>\<open>answers\<close> of the function is called \<open>sheet\<close> here.\<close>

definition simulate_step :: "env \<Rightarrow> nat \<Rightarrow> (nat \<times> jsval) list \<Rightarrow> error + (nat \<times> jsval) list" where
  "simulate_step e i sheet = Inr (AList.update i (drawn_answer e i) sheet)"

definition simulateOMRProcessing :: "env \<Rightarrow> error + jsval" where
  "simulateOMRProcessing e =
     (case for_loop 1 100 (simulate_step e) [] of
        Inl err \<Rightarrow> Inl err
      | Inr sheet \<Rightarrow> Inr (JObj sheet))"

section \<open>The store and the two POST handlers\<close>

record evaluation_data =
  evaluation_id :: string
  studentName :: jsval
  rollNumber :: jsval
  examDate :: jsval
  detectedAnswers :: jsval
  answerKeyId :: jsval
  evaluation :: "scores option"
  imageData :: string
  eval_status :: string
  processingTime :: string
  processedAt :: string

datatype kv_value = AnswerKeyData answer_key | EvaluationData evaluation_data

type_synonym kv_store = "string \<rightharpoonup> kv_value"

text \<open>
  Modelled from the spec: the key-value module \<^verbatim>\<open>./kv_store.tsx\<close> is not among the
  sources. Its contract is \<^verbatim>\<open>get(id) \<rightarrow> value|absent\<close> and
  \<^verbatim>\<open>set(id, value) \<rightarrow> void\<close> over string ids; an id that is not a string names
  no entry.
\<close>

definition kv_get :: "kv_store \<Rightarrow> jsval \<Rightarrow> kv_value option" where
  "kv_get kv k = (case k of JStr s \<Rightarrow> kv s | _ \<Rightarrow> None)"

text \<open>
  Modelled from the spec: \<^verbatim>\<open>set(id, value)\<close> of the same module binds the id to
  the value and leaves every other id as it was.
\<close>

definition kv_set :: "kv_store \<Rightarrow> string \<Rightarrow> kv_value \<Rightarrow> kv_store" where
  "kv_set kv k v = kv(k \<mapsto> v)"

text \<open>\<^verbatim>\<open>answerKey.answers\<close> on whatever the store holds under the id.\<close>

fun answers_of :: "kv_value \<Rightarrow> jsval" where
  "answers_of (AnswerKeyData k) = answers k"
| "answers_of (EvaluationData e) = JUndefined"

datatype 'a response = Success 'a | Failure nat string

record answer_key_request =
  req_examName :: jsval
  req_setVersion :: jsval
  req_totalQuestions :: nat
  req_answers :: jsval
  req_subjects :: "subject_decl list"

definition post_answer_keys ::
  "kv_store \<Rightarrow> env \<Rightarrow> answer_key_request \<Rightarrow> kv_store \<times> string response" where
  "post_answer_keys kv e body =
     (if \<not> truthy (req_examName body) \<or> \<not> truthy (req_setVersion body)
         \<or> \<not> truthy (req_answers body)
      then (kv, Failure 400 ''Missing required fields'')
      else
        (let answerKeyId = ''answer_key_'' @ date_now e;
             answerKeyData =
               \<lparr>key_id = answerKeyId,
                examName = req_examName body,
                setVersion = req_setVersion body,
                totalQuestions = req_totalQuestions body,
                answers = req_answers body,
                subjects = req_subjects body,
                uploadDate = iso_date e\<rparr>
         in (kv_set kv answerKeyId (AnswerKeyData answerKeyData), Success answerKeyId)))"

record omr_request =
  req_studentName :: jsval
  req_rollNumber :: jsval
  req_examDate :: jsval
  req_imageData :: jsval
  req_answerKeyId :: jsval

text \<open>\<^verbatim>\<open>imageData.substring(0, 50)\<close>: only a string has the method.\<close>

fun substring_0_50 :: "jsval \<Rightarrow> error + string" where
  "substring_0_50 (JStr s) = Inr (take 50 s)"
| "substring_0_50 v = Inl TypeError"

text \<open>
  The body of the \<^verbatim>\<open>try\<close> block after the check of the required fields; every
  exception is caught by the handler and answered with status 500, before
  anything is written. The request body is taken as parsed, and the store as
  answering every call.
\<close>

definition process_omr_body :: "kv_store \<Rightarrow> env \<Rightarrow> omr_request \<Rightarrow> error + evaluation_data" where
  "process_omr_body kv e body =
     (let answerKey = (if truthy (req_answerKeyId body)
                       then kv_get kv (req_answerKeyId body) else None)
      in case simulateOMRProcessing e of
           Inl err \<Rightarrow> Inl err
         | Inr detected \<Rightarrow>
             (case (case answerKey of
                      None \<Rightarrow> Inr None
                    | Some ak \<Rightarrow>
                        (case calculateScores detected (answers_of ak) of
                           Inl err \<Rightarrow> Inl err
                         | Inr r \<Rightarrow> Inr (Some r))) of
                Inl err \<Rightarrow> Inl err
              | Inr ev \<Rightarrow>
                  (case substring_0_50 (req_imageData body) of
                     Inl err \<Rightarrow> Inl err
                   | Inr img \<Rightarrow>
                       Inr \<lparr>evaluation_id = ''evaluation_'' @ date_now e,
                            studentName = req_studentName body,
                            rollNumber = req_rollNumber body,
                            examDate = req_examDate body,
                            detectedAnswers = detected,
                            answerKeyId = req_answerKeyId body,
                            evaluation = ev,
                            imageData = img @ ''...'',
                            eval_status = ''completed'',
                            processingTime = processing_time e,
                            processedAt = iso_date e\<rparr>)))"

definition process_omr ::
  "kv_store \<Rightarrow> env \<Rightarrow> omr_request \<Rightarrow> kv_store \<times> evaluation_data response" where
  "process_omr kv e body =
     (if \<not> truthy (req_studentName body) \<or> \<not> truthy (req_rollNumber body)
         \<or> \<not> truthy (req_imageData body)
      then (kv, Failure 400 ''Missing required fields'')
      else
        (case process_omr_body kv e body of
           Inl err \<Rightarrow> (kv, Failure 500 ''Failed to process OMR sheet'')
         | Inr evaluationData \<Rightarrow>
             (kv_set kv (evaluation_id evaluationData) (EvaluationData evaluationData),
              Success evaluationData)))"

text \<open>The subject whose range of \<open>subjectRanges\<close> holds question \<open>q\<close>.\<close>

definition subject_at :: "nat \<Rightarrow> string option" where
  "subject_at q =
     map_option subject (find (\<lambda>range. q \<ge> start range \<and> q \<le> end' range) subjectRanges)"

section \<open>The counts of the specification, and example inputs\<close>

text \<open>
  The total of the specification's scoring contract, in its words: the number of
  questions \<open>q\<close> in \<open>1..totalQuestions\<close> whose detected answer is present (not the
  undetected marker) and equals the answer of the key.
\<close>

definition spec_totalScore :: "jsval \<Rightarrow> answer_key \<Rightarrow> int" where
  "spec_totalScore detected answerKey =
     int (length (filter
       (\<lambda>q. \<not> nullish (read detected q) \<and> read detected q = read (answers answerKey) q)
       [1..<Suc (totalQuestions answerKey)]))"

text \<open>A sheet, or the answers of a key, with \<^verbatim>\<open>'A'\<close> at every question \<open>1..n\<close>.\<close>

definition all_A :: "nat \<Rightarrow> jsval" where
  "all_A n = JObj (map (\<lambda>q. (q, JStr ''A'')) [1..<Suc n])"

definition exam_key :: "nat \<Rightarrow> jsval \<Rightarrow> subject_decl list \<Rightarrow> answer_key" where
  "exam_key n ans subjs =
     \<lparr>key_id = ''answer_key_1'', examName = JStr ''Exam'', setVersion = JStr ''A'',
      totalQuestions = n, answers = ans, subjects = subjs, uploadDate = ''2025-01-01''\<rparr>"

text \<open>The five subjects as the upload form declares them.\<close>

definition form_subjects :: "subject_decl list" where
  "form_subjects =
     [\<lparr>name = ''Data Analytics'', questions = ''1-20''\<rparr>,
      \<lparr>name = ''Machine Learning'', questions = ''21-40''\<rparr>,
      \<lparr>name = ''Python Programming'', questions = ''41-60''\<rparr>,
      \<lparr>name = ''Statistics'', questions = ''61-80''\<rparr>,
      \<lparr>name = ''SQL & Databases'', questions = ''81-100''\<rparr>]"

text \<open>
  Scenario A of the specification: the key \<^verbatim>\<open>{1:'A', 2:'B'}\<close> and the sheet
  \<^verbatim>\<open>{1:'A', 2:'C'}\<close>.
\<close>

definition scenarioA_key :: answer_key where
  "scenarioA_key = exam_key 2 (JObj [(1, JStr ''A''), (2, JStr ''B'')]) form_subjects"

definition scenarioA_detected :: jsval where
  "scenarioA_detected = JObj [(1, JStr ''A''), (2, JStr ''C'')]"

text \<open>
  Scenario B of the specification: the sheet \<^verbatim>\<open>{1: null, 2:'B'}\<close> against the key
  of scenario A.
\<close>

definition scenarioB_detected :: jsval where
  "scenarioB_detected = JObj [(1, JNull), (2, JStr ''B'')]"

text \<open>What the store holds under an id, read as an evaluation or as an answer key.\<close>

definition stored_evaluation :: "kv_store \<Rightarrow> string \<Rightarrow> evaluation_data option" where
  "stored_evaluation kv k =
     (case kv k of Some (EvaluationData ev) \<Rightarrow> Some ev | _ \<Rightarrow> None)"

definition stored_key :: "kv_store \<Rightarrow> string \<Rightarrow> answer_key option" where
  "stored_key kv k =
     (case kv k of Some (AnswerKeyData ak) \<Rightarrow> Some ak | _ \<Rightarrow> None)"

text \<open>An environment in which every bubble is detected as \<^verbatim>\<open>'A'\<close>.\<close>

definition env_A :: env where
  "env_A =
     \<lparr>detection_draw = (\<lambda>i. True),
      option_draw = (\<lambda>i. 0),
      date_now = ''1700000000000'',
      processing_time = ''2.0s'',
      iso_date = ''2023-11-14T22:13:20.000Z''\<rparr>"

text \<open>A submission with and without the id of an answer key.\<close>

definition submission :: "jsval \<Rightarrow> omr_request" where
  "submission keyId =
     \<lparr>req_studentName = JStr ''Ann'',
      req_rollNumber = JStr ''7'',
      req_examDate = JStr ''2023-11-14'',
      req_imageData = JStr ''data:image/png;base64,AAAA'',
      req_answerKeyId = keyId\<rparr>"

definition store_with_key :: kv_store where
  "store_with_key = kv_set Map.empty ''answer_key_1'' (AnswerKeyData scenarioA_key)"

text \<open>
  Scenario C of the specification: a key of 100 questions with no entry for
  question 50.
\<close>

definition missing_50 :: "(nat \<times> jsval) list" where
  "missing_50 = map (\<lambda>q. (q, JStr ''A'')) (filter (\<lambda>q. q \<noteq> 50) [1..<101])"

definition upload_missing_50 :: answer_key_request where
  "upload_missing_50 =
     \<lparr>req_examName = JStr ''Exam'',
      req_setVersion = JStr ''A'',
      req_totalQuestions = 100,
      req_answers = JObj missing_50,
      req_subjects = form_subjects\<rparr>"


text \<open>A key of 100 questions that declares one subject of its own.\<close>

definition physics_key :: answer_key where
  "physics_key = exam_key 100 (all_A 100) [\<lparr>name = ''Physics'', questions = ''1-100''\<rparr>]"

text \<open>A sheet with an entry for question 101, and the same sheet without it.\<close>

definition sheet_with_101 :: "(nat \<times> jsval) list" where
  "sheet_with_101 = [(1, JStr ''A''), (101, JStr ''B'')]"

definition sheet_without_101 :: "(nat \<times> jsval) list" where
  "sheet_without_101 = [(1, JStr ''A'')]"

section \<open>Properties of the loops\<close>

lemma get_prop_nullish: "nullish v \<Longrightarrow> get_prop v q = Inl TypeError"
  by (cases v) simp_all

lemma get_prop_read: "\<not> nullish v \<Longrightarrow> get_prop v q = Inr (read v q)"
  by (cases v) (simp_all add: read_def)

lemma for_loop_total:
  "(\<And>i t. \<exists>t'. body i t = Inr t') \<Longrightarrow>
   for_loop q n body s = Inr (fold (run body) [q..<Suc n] s)"
proof (induction q n body s rule: for_loop.induct)
  case (1 q n body s)
  show ?case
  proof (cases "q \<le> n")
    case True
    obtain s' where s': "body q s = Inr s'" using "1.prems" by blast
    have step: "for_loop q n body s = for_loop (q + 1) n body s'"
      using True s' by (subst for_loop.simps) simp
    have ih: "for_loop (q + 1) n body s' = Inr (fold (run body) [Suc q..<Suc n] s')"
      using "1.IH" [OF True s'] "1.prems" by simp
    have l: "[q..<Suc n] = q # [Suc q..<Suc n]"
      using True by (simp add: upt_conv_Cons del: upt_Suc)
    have r: "run body q s = s'"
      by (simp add: run_def s')
    show ?thesis
      unfolding step ih l by (simp add: r del: upt_Suc)
  next
    case False
    then show ?thesis by (subst for_loop.simps) simp
  qed
qed

lemma for_loop_throws:
  "q \<le> n \<Longrightarrow> body q s = Inl e \<Longrightarrow> for_loop q n body s = Inl e"
  by (subst for_loop.simps) simp

lemma for_loop_cong_range:
  "(\<And>i. q \<le> i \<Longrightarrow> i \<le> n \<Longrightarrow> body1 i = body2 i) \<Longrightarrow>
   for_loop q n body1 s = for_loop q n body2 s"
proof (induction q n body1 s rule: for_loop.induct)
  case (1 q n body1 s)
  show ?case
  proof (cases "q \<le> n")
    case True
    have b: "body1 q s = body2 q s" using "1.prems" True by simp
    show ?thesis
    proof (cases "body1 q s")
      case (Inl e)
      then show ?thesis using True b by (simp add: for_loop_throws)
    next
      case (Inr s')
      have "for_loop (q + 1) n body1 s' = for_loop (q + 1) n body2 s'"
        using "1.IH" [OF True Inr] "1.prems" by simp
      moreover have "for_loop q n body1 s = for_loop (q + 1) n body1 s'"
        using True Inr by (subst for_loop.simps) simp
      moreover have "for_loop q n body2 s = for_loop (q + 1) n body2 s'"
        using True Inr b by (subst for_loop.simps) simp
      ultimately show ?thesis by simp
    qed
  next
    case False
    have "for_loop q n body1 s = Inr s" using False by (subst for_loop.simps) simp
    moreover have "for_loop q n body2 s = Inr s" using False by (subst for_loop.simps) simp
    ultimately show ?thesis by simp
  qed
qed


lemma score_step_returns:
  "\<not> nullish d \<Longrightarrow> \<not> nullish c \<Longrightarrow> \<exists>st'. score_step d c q st = Inr st'"
  by (simp add: score_step_def get_prop_read)

lemma calculateScores_fold:
  "\<not> nullish d \<Longrightarrow> \<not> nullish c \<Longrightarrow>
   calculateScores d c = Inr (fold (run (score_step d c)) [1..<Suc 100] initialScores)"
  unfolding calculateScores_def by (rule for_loop_total) (rule score_step_returns)

lemma calculateScores_throws:
  "nullish d \<or> nullish c \<Longrightarrow> calculateScores d c = Inl TypeError"
proof -
  assume n: "nullish d \<or> nullish c"
  have "score_step d c 1 initialScores = Inl TypeError"
  proof (cases "nullish d")
    case True
    then show ?thesis by (simp add: score_step_def get_prop_nullish)
  next
    case False
    with n have "nullish c" by simp
    with False show ?thesis by (simp add: score_step_def get_prop_nullish get_prop_read)
  qed
  then show ?thesis unfolding calculateScores_def by (intro for_loop_throws) simp_all
qed

lemma run_score_step_total:
  "\<not> nullish d \<Longrightarrow> \<not> nullish c \<Longrightarrow>
   totalScore (run (score_step d c) q st) =
     totalScore st + (if answered_correctly d c q then 1 else 0)"
  by (simp add: run_def score_step_def get_prop_read answered_correctly_def Let_def
      split: option.splits)

lemma fold_score_step_total:
  "\<not> nullish d \<Longrightarrow> \<not> nullish c \<Longrightarrow>
   totalScore (fold (run (score_step d c)) qs st) =
     totalScore st + int (length (filter (answered_correctly d c) qs))"
  by (induction qs arbitrary: st) (simp_all add: run_score_step_total)

lemma find_subjectRange:
  "1 \<le> q \<Longrightarrow> q \<le> 100 \<Longrightarrow>
   \<exists>r. find (\<lambda>range. q \<ge> start range \<and> q \<le> end' range) subjectRanges = Some r
       \<and> subject r \<in> set (map fst (subjectScores initialScores))"
  by (simp add: subjectRanges_def initialScores_def)

lemma map_fst_increment: "map fst (increment k xs) = map fst xs"
  by (induction xs) auto

lemma sum_increment:
  "k \<in> set (map fst xs) \<Longrightarrow> sum_list (map snd (increment k xs)) = sum_list (map snd xs) + 1"
  by (induction xs) force+

lemma run_score_step_subjects:
  assumes "\<not> nullish d" "\<not> nullish c" "1 \<le> q" "q \<le> 100"
    and "map fst (subjectScores st) = map fst (subjectScores initialScores)"
  shows "map fst (subjectScores (run (score_step d c) q st)) = map fst (subjectScores initialScores)
    \<and> sum_list (map snd (subjectScores (run (score_step d c) q st))) =
        sum_list (map snd (subjectScores st)) + (if answered_correctly d c q then 1 else 0)"
proof -
  obtain r where r: "find (\<lambda>range. q \<ge> start range \<and> q \<le> end' range) subjectRanges = Some r"
    and s: "subject r \<in> set (map fst (subjectScores st))"
    using find_subjectRange [OF assms(3,4)] assms(5) by auto
  show ?thesis
    using assms(1,2,5) r sum_increment [OF s]
    by (simp add: run_def score_step_def get_prop_read answered_correctly_def Let_def
        map_fst_increment)
qed

lemma fold_score_step_subjects:
  "\<not> nullish d \<Longrightarrow> \<not> nullish c \<Longrightarrow> \<forall>q\<in>set qs. 1 \<le> q \<and> q \<le> 100 \<Longrightarrow>
   map fst (subjectScores st) = map fst (subjectScores initialScores) \<Longrightarrow>
   map fst (subjectScores (fold (run (score_step d c)) qs st)) = map fst (subjectScores initialScores)
   \<and> sum_list (map snd (subjectScores (fold (run (score_step d c)) qs st))) =
       sum_list (map snd (subjectScores st)) + int (length (filter (answered_correctly d c) qs))"
proof (induction qs arbitrary: st)
  case Nil
  then show ?case by simp
next
  case (Cons q qs)
  have step: "map fst (subjectScores (run (score_step d c) q st)) = map fst (subjectScores initialScores)
    \<and> sum_list (map snd (subjectScores (run (score_step d c) q st))) =
        sum_list (map snd (subjectScores st)) + (if answered_correctly d c q then 1 else 0)"
    using run_score_step_subjects [of d c q st] Cons.prems by simp
  have "\<forall>q\<in>set qs. 1 \<le> q \<and> q \<le> 100" using Cons.prems by simp
  from Cons.IH [OF Cons.prems(1,2) this conjunct1 [OF step]] step
  show ?case by simp
qed

lemma count_questions:
  "int (length (filter P [1..<Suc 100])) = int (card {q \<in> {1..100}. P q})"
proof -
  have "length (filter P [1..<Suc 100]) = card ({q. P q} \<inter> set [1..<Suc 100])"
    by (rule distinct_length_filter) simp
  also have "{q. P q} \<inter> set [1..<Suc 100] = {q \<in> {1..100}. P q}"
    by auto
  finally show ?thesis by simp
qed

lemma score_returns:
  assumes "\<not> nullish d" "\<not> nullish (answers k)"
  shows "\<exists>r. score d k = Inr r
    \<and> totalScore r = int (card {q \<in> {1..100}. answered_correctly d (answers k) q})
    \<and> map fst (subjectScores r) = map fst (subjectScores initialScores)
    \<and> sum_list (map snd (subjectScores r)) = totalScore r"
proof -
  let ?r = "fold (run (score_step d (answers k))) [1..<Suc 100] initialScores"
  have r: "score d k = Inr ?r"
    unfolding score_def using assms by (rule calculateScores_fold)
  have t: "totalScore ?r = int (card {q \<in> {1..100}. answered_correctly d (answers k) q})"
    using fold_score_step_total [OF assms, of "[1..<Suc 100]" initialScores]
    by (simp only: count_questions) (simp add: initialScores_def)
  have "\<forall>q\<in>set [1..<Suc 100]. 1 \<le> q \<and> q \<le> 100" by auto
  from fold_score_step_subjects [OF assms this, of initialScores]
  have s: "map fst (subjectScores ?r) = map fst (subjectScores initialScores)
    \<and> sum_list (map snd (subjectScores ?r)) =
        sum_list (map snd (subjectScores initialScores))
        + int (length (filter (answered_correctly d (answers k)) [1..<Suc 100]))"
    by simp
  have "sum_list (map snd (subjectScores ?r)) = totalScore ?r"
    using s fold_score_step_total [OF assms, of "[1..<Suc 100]" initialScores]
    by (simp add: initialScores_def)
  with r t s show ?thesis by blast
qed

lemma increment_map:
  "distinct (map fst xs) \<Longrightarrow>
   increment k xs = map (\<lambda>(k', v). (k', if k' = k then v + 1 else v)) xs"
proof (induction xs)
  case Nil
  then show ?case by simp
next
  case (Cons x xs)
  obtain k' v where x: "x = (k', v)" by (cases x)
  show ?case
  proof (cases "k' = k")
    case True
    then have "k \<notin> fst ` set xs" using Cons.prems x by simp
    then have "map (\<lambda>(k', v). (k', if k' = k then v + 1 else v)) xs = xs"
      by (intro map_idI) force
    then show ?thesis using True x by simp
  next
    case False
    then show ?thesis using Cons x by simp
  qed
qed

lemma run_score_step_subjectScores:
  assumes "\<not> nullish d" "\<not> nullish c" "1 \<le> q" "q \<le> 100"
    and "map fst (subjectScores st) = map fst (subjectScores initialScores)"
  shows "subjectScores (run (score_step d c) q st) =
     map (\<lambda>(nm, v). (nm, v + (if answered_correctly d c q \<and> subject_at q = Some nm then 1 else 0)))
       (subjectScores st)"
proof -
  obtain r where r: "find (\<lambda>range. q \<ge> start range \<and> q \<le> end' range) subjectRanges = Some r"
    using find_subjectRange [OF assms(3,4)] by auto
  have dist: "distinct (map fst (subjectScores st))"
    unfolding assms(5) by (simp add: initialScores_def)
  have at: "subject_at q = Some (subject r)"
    by (simp add: subject_at_def r)
  show ?thesis
  proof (cases "answered_correctly d c q")
    case True
    then have "subjectScores (run (score_step d c) q st) = increment (subject r) (subjectScores st)"
      using assms(1,2) r
      by (simp add: run_def score_step_def get_prop_read answered_correctly_def Let_def)
    also have "\<dots> = map (\<lambda>(k', v). (k', if k' = subject r then v + 1 else v)) (subjectScores st)"
      by (rule increment_map [OF dist])
    also have "\<dots> = map (\<lambda>(nm, v). (nm, v + (if answered_correctly d c q \<and> subject_at q = Some nm then 1 else 0)))
       (subjectScores st)"
      using True at by (intro map_cong) auto
    finally show ?thesis .
  next
    case False
    then have "subjectScores (run (score_step d c) q st) = subjectScores st"
      using assms(1,2)
      by (auto simp: run_def score_step_def get_prop_read answered_correctly_def Let_def)
    also have "\<dots> = map (\<lambda>(nm, v). (nm, v + (if answered_correctly d c q \<and> subject_at q = Some nm then 1 else 0)))
       (subjectScores st)"
      using False by (simp add: case_prod_beta)
    finally show ?thesis .
  qed
qed

lemma fold_score_step_subjectScores:
  "\<not> nullish d \<Longrightarrow> \<not> nullish c \<Longrightarrow> \<forall>q\<in>set qs. 1 \<le> q \<and> q \<le> 100 \<Longrightarrow>
   map fst (subjectScores st) = map fst (subjectScores initialScores) \<Longrightarrow>
   subjectScores (fold (run (score_step d c)) qs st) =
     map (\<lambda>(nm, v).
            (nm, v + int (length (filter (\<lambda>q. answered_correctly d c q \<and> subject_at q = Some nm) qs))))
       (subjectScores st)"
proof (induction qs arbitrary: st)
  case Nil
  then show ?case by (simp add: case_prod_beta)
next
  case (Cons q qs)
  let ?st = "run (score_step d c) q st"
  have q: "1 \<le> q" "q \<le> 100" using Cons.prems by simp_all
  have keys: "map fst (subjectScores ?st) = map fst (subjectScores initialScores)"
    using run_score_step_subjects [OF Cons.prems(1,2) q Cons.prems(4)] by simp
  have rest: "\<forall>q\<in>set qs. 1 \<le> q \<and> q \<le> 100" using Cons.prems by simp
  have "subjectScores (fold (run (score_step d c)) (q # qs) st) =
        subjectScores (fold (run (score_step d c)) qs ?st)"
    by simp
  also have "\<dots> = map (\<lambda>(nm, v).
            (nm, v + int (length (filter (\<lambda>q. answered_correctly d c q \<and> subject_at q = Some nm) qs))))
       (subjectScores ?st)"
    by (rule Cons.IH [OF Cons.prems(1,2) rest keys])
  also have "\<dots> = map (\<lambda>(nm, v).
            (nm, v + int (length (filter (\<lambda>q. answered_correctly d c q \<and> subject_at q = Some nm) (q # qs)))))
       (subjectScores st)"
    unfolding run_score_step_subjectScores [OF Cons.prems(1,2) q Cons.prems(4)]
    by (auto simp: case_prod_beta)
  finally show ?case .
qed

lemma subject_at_range:
  "1 \<le> q \<Longrightarrow> q \<le> 100 \<Longrightarrow> r \<in> set subjectRanges \<Longrightarrow>
   subject_at q = Some (subject r) \<longleftrightarrow> start r \<le> q \<and> q \<le> end' r"
  by (auto simp: subject_at_def subjectRanges_def)

lemma count_range:
  assumes "r \<in> set subjectRanges"
  shows "int (length (filter (\<lambda>q. P q \<and> subject_at q = Some (subject r)) [1..<Suc 100])) =
     int (card {q \<in> {start r..end' r}. P q})"
proof -
  have "{q \<in> {1..100}. P q \<and> subject_at q = Some (subject r)} = {q \<in> {start r..end' r}. P q}"
  proof -
    have "1 \<le> start r \<and> end' r \<le> 100" using assms by (auto simp: subjectRanges_def)
    then show ?thesis using subject_at_range [OF _ _ assms] by auto
  qed
  then show ?thesis by (simp only: count_questions)
qed

lemma score_subjectScores:
  assumes "\<not> nullish d" "\<not> nullish (answers k)"
  shows "\<exists>r. score d k = Inr r \<and>
    subjectScores r =
      map (\<lambda>range. (subject range,
             int (card {q \<in> {start range..end' range}. answered_correctly d (answers k) q})))
        subjectRanges"
proof -
  let ?r = "fold (run (score_step d (answers k))) [1..<Suc 100] initialScores"
  have r: "score d k = Inr ?r"
    unfolding score_def using assms by (rule calculateScores_fold)
  have "\<forall>q\<in>set [1..<Suc 100]. 1 \<le> q \<and> q \<le> 100" by auto
  from fold_score_step_subjectScores [OF assms this, of initialScores]
  have "subjectScores ?r = map (\<lambda>(nm, v).
            (nm, v + int (length (filter (\<lambda>q. answered_correctly d (answers k) q \<and> subject_at q = Some nm) [1..<Suc 100]))))
       (subjectScores initialScores)"
    by simp
  also have "\<dots> = map (\<lambda>range. (subject range,
             int (length (filter (\<lambda>q. answered_correctly d (answers k) q \<and> subject_at q = Some (subject range)) [1..<Suc 100]))))
        subjectRanges"
    by (simp add: initialScores_def subjectRanges_def del: upt_Suc)
  also have "\<dots> = map (\<lambda>range. (subject range,
             int (card {q \<in> {start range..end' range}. answered_correctly d (answers k) q})))
        subjectRanges"
    by (intro map_cong refl) (simp only: count_range)
  finally show ?thesis using r by blast
qed

lemma map_of_const_keys:
  "map_of (map (\<lambda>q. (q, v)) xs) q = (if q \<in> set xs then Some v else None)"
  by (induction xs) auto

lemma read_all_A:
  "read (all_A n) q = (if 1 \<le> q \<and> q \<le> n then JStr ''A'' else JUndefined)"
  by (auto simp: read_def all_A_def map_of_const_keys)

lemma scenarioA_score:
  "score scenarioA_detected scenarioA_key =
     Inr \<lparr>totalScore = 1,
          subjectScores =
            [(''Data Analytics'', 1), (''Machine Learning'', 0), (''Python Programming'', 0),
             (''Statistics'', 0), (''SQL & Databases'', 0)]\<rparr>"
  by code_simp

subsection \<open>C1: the total score\<close>

text \<open>
  C1, as amended. The loop of \<open>calculateScores\<close> runs over the fixed questions
  \<open>1..100\<close>, whatever \<open>totalQuestions\<close> of the key is. For a sheet and a key whose
  answers are not null, \<open>score\<close> returns, and its \<open>totalScore\<close> is the number of
  questions \<open>q\<close> in \<open>1..100\<close> whose detected answer is truthy and strictly equal to
  the answer of the key. The count is a natural number: each such question adds
  one point and no question takes a point away (lemma \<open>run_score_step_total\<close> is
  the single step).
\<close>

theorem score_totalScore:
  assumes "\<not> nullish detected" and "\<not> nullish (answers answerKey)"
  shows "\<exists>r. score detected answerKey = Inr r
    \<and> totalScore r =
        int (card {q \<in> {1..100}.
               truthy (read detected q)
               \<and> strict_eq (read detected q) (read (answers answerKey) q)})"
  using score_returns [OF assms] by (auto simp: answered_correctly_def)

theorem score_totalScore_witness:
  "\<not> nullish scenarioA_detected \<and> \<not> nullish (answers scenarioA_key)
   \<and> score scenarioA_detected scenarioA_key =
       Inr \<lparr>totalScore = 1,
            subjectScores =
              [(''Data Analytics'', 1), (''Machine Learning'', 0), (''Python Programming'', 0),
               (''Statistics'', 0), (''SQL & Databases'', 0)]\<rparr>
   \<and> int (card {q \<in> {1..100}.
               truthy (read scenarioA_detected q)
               \<and> strict_eq (read scenarioA_detected q) (read (answers scenarioA_key) q)}) = 1"
proof -
  have d: "\<not> nullish scenarioA_detected"
    by (simp add: scenarioA_detected_def)
  have k: "\<not> nullish (answers scenarioA_key)"
    by (simp add: scenarioA_key_def exam_key_def)
  from score_totalScore [OF d k] scenarioA_score d k show ?thesis
    by auto
qed

text \<open>
  C1 as stated fails on a key of 101 questions, all answered \<^verbatim>\<open>'A'\<close>, and a sheet
  with \<^verbatim>\<open>'A'\<close> at each of the 101 questions: the specification counts 101
  correct questions, the code returns 100.
\<close>

theorem score_totalQuestions_counterexample:
  "totalQuestions (exam_key 101 (all_A 101) form_subjects) = 101
   \<and> spec_totalScore (all_A 101) (exam_key 101 (all_A 101) form_subjects) = 101
   \<and> map_sum id totalScore (score (all_A 101) (exam_key 101 (all_A 101) form_subjects)) = Inr 100"
proof -
  let ?k = "exam_key 101 (all_A 101) form_subjects"
  have a: "answers ?k = all_A 101" by (simp add: exam_key_def)
  have n: "\<not> nullish (all_A 101)" by (simp add: all_A_def)
  have "filter (\<lambda>q. \<not> nullish (read (all_A 101) q) \<and> read (all_A 101) q = read (all_A 101) q)
          [1..<Suc 101] = [1..<Suc 101]"
    by (rule filter_True) (auto simp: read_all_A)
  then have s: "spec_totalScore (all_A 101) ?k = 101"
    unfolding spec_totalScore_def a by (simp add: exam_key_def)
  have "{q \<in> {1..100}. answered_correctly (all_A 101) (all_A 101) q} = {1..100::nat}"
    by (auto simp: answered_correctly_def read_all_A)
  then have "int (card {q \<in> {1..100}. answered_correctly (all_A 101) (all_A 101) q}) = 100"
    by simp
  with score_returns [of "all_A 101" ?k] n a
  have "map_sum id totalScore (score (all_A 101) ?k) = Inr 100"
    by auto
  with s show ?thesis by (simp add: exam_key_def)
qed

subsection \<open>C2: the total is the sum of the subject scores\<close>

text \<open>
  C2. For a sheet and a key whose answers are not null, \<open>score\<close> returns, and the
  returned \<open>totalScore\<close> is the sum of the values of the returned \<open>subjectScores\<close>:
  every question of the loop lies in exactly one of the five ranges, so each
  point goes to exactly one subject.
\<close>

theorem score_total_is_sum_of_subjects:
  assumes "\<not> nullish detected" and "\<not> nullish (answers answerKey)"
  shows "\<exists>r. score detected answerKey = Inr r
    \<and> totalScore r = sum_list (map snd (subjectScores r))"
  using score_returns [OF assms] by auto

theorem score_total_is_sum_of_subjects_witness:
  "\<not> nullish scenarioA_detected \<and> \<not> nullish (answers scenarioA_key)
   \<and> (\<exists>r. score scenarioA_detected scenarioA_key = Inr r
         \<and> totalScore r = 1 \<and> sum_list (map snd (subjectScores r)) = 1)"
proof -
  have d: "\<not> nullish scenarioA_detected"
    by (simp add: scenarioA_detected_def)
  have k: "\<not> nullish (answers scenarioA_key)"
    by (simp add: scenarioA_key_def exam_key_def)
  from score_total_is_sum_of_subjects [OF d k] scenarioA_score d k show ?thesis
    by auto
qed

subsection \<open>C4: the keys of the subject scores\<close>

text \<open>
  C4, as amended. \<open>calculateScores\<close> is not given the \<open>subjects\<close> of the key; its
  \<open>subjectScores\<close> object is created with the five fixed subjects at 0. For a
  sheet and a key whose answers are not null, the keys of the returned
  \<open>subjectScores\<close> are these five names, in this order; the value of each is the
  number of correctly answered questions of its range (0 when there is none); and
  a subject declared by the key is a key of the output exactly when it is one of
  the five.
\<close>

theorem score_subject_keys:
  assumes "\<not> nullish detected" and "\<not> nullish (answers answerKey)"
  shows "\<exists>r. score detected answerKey = Inr r
    \<and> map fst (subjectScores r) =
        [''Data Analytics'', ''Machine Learning'', ''Python Programming'',
         ''Statistics'', ''SQL & Databases'']
    \<and> subjectScores r =
        map (\<lambda>range. (subject range,
               int (card {q \<in> {start range..end' range}.
                      truthy (read detected q)
                      \<and> strict_eq (read detected q) (read (answers answerKey) q)})))
          subjectRanges
    \<and> (\<forall>s\<in>set (subjects answerKey).
          (name s \<in> set (map fst (subjectScores r))) =
          (name s \<in> {''Data Analytics'', ''Machine Learning'', ''Python Programming'',
                      ''Statistics'', ''SQL & Databases''}))"
proof -
  obtain r where r: "score detected answerKey = Inr r"
    and v: "subjectScores r =
      map (\<lambda>range. (subject range,
             int (card {q \<in> {start range..end' range}.
                    answered_correctly detected (answers answerKey) q})))
        subjectRanges"
    using score_subjectScores [OF assms] by blast
  have k: "map fst (subjectScores r) =
        [''Data Analytics'', ''Machine Learning'', ''Python Programming'',
         ''Statistics'', ''SQL & Databases'']"
    unfolding v by (simp add: subjectRanges_def)
  have ks: "\<forall>s\<in>set (subjects answerKey).
          (name s \<in> set (map fst (subjectScores r))) =
          (name s \<in> {''Data Analytics'', ''Machine Learning'', ''Python Programming'',
                      ''Statistics'', ''SQL & Databases''})"
    unfolding k by simp
  have c: "score detected answerKey = Inr r
    \<and> map fst (subjectScores r) =
        [''Data Analytics'', ''Machine Learning'', ''Python Programming'',
         ''Statistics'', ''SQL & Databases'']
    \<and> subjectScores r =
        map (\<lambda>range. (subject range,
               int (card {q \<in> {start range..end' range}.
                      truthy (read detected q)
                      \<and> strict_eq (read detected q) (read (answers answerKey) q)})))
          subjectRanges
    \<and> (\<forall>s\<in>set (subjects answerKey).
          (name s \<in> set (map fst (subjectScores r))) =
          (name s \<in> {''Data Analytics'', ''Machine Learning'', ''Python Programming'',
                      ''Statistics'', ''SQL & Databases''}))"
    using r k v [unfolded answered_correctly_def] ks by (intro conjI)
  show ?thesis by (rule exI [of _ r]) (rule c)
qed

theorem score_subject_keys_witness:
  "\<not> nullish scenarioA_detected \<and> \<not> nullish (answers scenarioA_key)
   \<and> (\<exists>r. score scenarioA_detected scenarioA_key = Inr r
        \<and> subjectScores r =
            [(''Data Analytics'', 1), (''Machine Learning'', 0), (''Python Programming'', 0),
             (''Statistics'', 0), (''SQL & Databases'', 0)]
        \<and> (\<forall>s\<in>set (subjects scenarioA_key). name s \<in> set (map fst (subjectScores r))))"
proof -
  have d: "\<not> nullish scenarioA_detected"
    by (simp add: scenarioA_detected_def)
  have k: "\<not> nullish (answers scenarioA_key)"
    by (simp add: scenarioA_key_def exam_key_def)
  have s: "\<forall>s\<in>set (subjects scenarioA_key).
      name s \<in> {''Data Analytics'', ''Machine Learning'', ''Python Programming'',
                 ''Statistics'', ''SQL & Databases''}"
    by (simp add: scenarioA_key_def exam_key_def form_subjects_def)
  obtain r where r: "score scenarioA_detected scenarioA_key = Inr r"
    and ks: "\<forall>s\<in>set (subjects scenarioA_key).
          (name s \<in> set (map fst (subjectScores r))) =
          (name s \<in> {''Data Analytics'', ''Machine Learning'', ''Python Programming'',
                      ''Statistics'', ''SQL & Databases''})"
    using score_subject_keys [OF d k] by blast
  have v: "subjectScores r =
            [(''Data Analytics'', 1), (''Machine Learning'', 0), (''Python Programming'', 0),
             (''Statistics'', 0), (''SQL & Databases'', 0)]"
    using r scenarioA_score by auto
  have all: "\<forall>s\<in>set (subjects scenarioA_key). name s \<in> set (map fst (subjectScores r))"
    using ks s by simp
  have c: "score scenarioA_detected scenarioA_key = Inr r
        \<and> subjectScores r =
            [(''Data Analytics'', 1), (''Machine Learning'', 0), (''Python Programming'', 0),
             (''Statistics'', 0), (''SQL & Databases'', 0)]
        \<and> (\<forall>s\<in>set (subjects scenarioA_key). name s \<in> set (map fst (subjectScores r)))"
    using r v all by (intro conjI)
  have e: "\<exists>r. score scenarioA_detected scenarioA_key = Inr r
        \<and> subjectScores r =
            [(''Data Analytics'', 1), (''Machine Learning'', 0), (''Python Programming'', 0),
             (''Statistics'', 0), (''SQL & Databases'', 0)]
        \<and> (\<forall>s\<in>set (subjects scenarioA_key). name s \<in> set (map fst (subjectScores r)))"
    by (rule exI [of _ r]) (rule c)
  from d k e show ?thesis by (intro conjI)

qed

text \<open>
  C4 as stated fails on a key that declares the single subject \<^verbatim>\<open>'Physics'\<close> over
  questions 1-100: the output has the five fixed subjects and no \<^verbatim>\<open>'Physics'\<close>.
\<close>

theorem score_declared_subject_counterexample:
  "''Physics'' \<in> set (map name (subjects physics_key))
   \<and> map_sum id (map fst \<circ> subjectScores) (score (all_A 100) physics_key) =
       Inr [''Data Analytics'', ''Machine Learning'', ''Python Programming'',
            ''Statistics'', ''SQL & Databases'']
   \<and> ''Physics'' \<notin> set [''Data Analytics'', ''Machine Learning'', ''Python Programming'',
            ''Statistics'', ''SQL & Databases'']"
proof -
  have a: "\<not> nullish (all_A 100)" by (simp add: all_A_def)
  then have k: "\<not> nullish (answers physics_key)"
    by (simp add: physics_key_def exam_key_def)
  obtain r where r: "score (all_A 100) physics_key = Inr r"
    and m: "map fst (subjectScores r) = map fst (subjectScores initialScores)"
    using score_returns [OF a k] by blast
  have p1: "''Physics'' \<in> set (map name (subjects physics_key))"
    by (simp add: physics_key_def exam_key_def)
  have p2: "map_sum id (map fst \<circ> subjectScores) (score (all_A 100) physics_key) =
       Inr [''Data Analytics'', ''Machine Learning'', ''Python Programming'',
            ''Statistics'', ''SQL & Databases'']"
    unfolding r by (simp add: m initialScores_def)
  have p3: "''Physics'' \<notin> set [''Data Analytics'', ''Machine Learning'', ''Python Programming'',
            ''Statistics'', ''SQL & Databases'']"
    by simp
  from p1 p2 p3 show ?thesis by (intro conjI)
qed

lemma calculateScores_agree:
  assumes "\<And>q. 1 \<le> q \<Longrightarrow> q \<le> 100 \<Longrightarrow> get_prop d1 q = get_prop d2 q"
  shows "calculateScores d1 c = calculateScores d2 c"
  unfolding calculateScores_def
proof (rule for_loop_cong_range)
  fix i :: nat
  assume "1 \<le> i" "i \<le> 100"
  then have "get_prop d1 i = get_prop d2 i" by (rule assms)
  then show "score_step d1 c i = score_step d2 c i"
    by (intro ext) (simp add: score_step_def)
qed

lemma map_of_filter_keys:
  "map_of (filter (\<lambda>(q, v). P q) xs) q = (if P q then map_of xs q else None)"
  by (induction xs) auto

subsection \<open>C6: entries outside the questions of the loop\<close>

text \<open>
  C6, as amended. There is no check of the question numbers of a sheet and no
  MismatchError in the server. For a sheet that is an object and a key whose
  answers are not null, \<open>score\<close> returns, and what it returns is the score of the
  sheet without its entries outside \<open>1..100\<close>: such entries are never read.
\<close>

theorem score_ignores_out_of_range:
  assumes "\<not> nullish (answers answerKey)"
  shows "\<exists>r. score (JObj entries) answerKey = Inr r
    \<and> score (JObj (filter (\<lambda>(q, v). 1 \<le> q \<and> q \<le> 100) entries)) answerKey = Inr r"
proof -
  have "\<not> nullish (JObj entries)" by simp
  from score_returns [OF this assms]
  obtain r where r: "score (JObj entries) answerKey = Inr r" by blast
  have "calculateScores (JObj (filter (\<lambda>(q, v). 1 \<le> q \<and> q \<le> 100) entries)) (answers answerKey)
      = calculateScores (JObj entries) (answers answerKey)"
    by (rule calculateScores_agree) (simp add: map_of_filter_keys)
  then have c: "score (JObj entries) answerKey = Inr r
    \<and> score (JObj (filter (\<lambda>(q, v). 1 \<le> q \<and> q \<le> 100) entries)) answerKey = Inr r"
    using r by (simp add: score_def)
  show ?thesis by (rule exI [of _ r]) (rule c)
qed

theorem score_ignores_out_of_range_witness:
  "\<not> nullish (answers scenarioA_key)
   \<and> map_of sheet_with_101 101 = Some (JStr ''B'')
   \<and> filter (\<lambda>(q, v). 1 \<le> q \<and> q \<le> 100) sheet_with_101 = sheet_without_101
   \<and> (\<exists>r. score (JObj sheet_with_101) scenarioA_key = Inr r
          \<and> score (JObj sheet_without_101) scenarioA_key = Inr r)"
proof -
  have k: "\<not> nullish (answers scenarioA_key)"
    by (simp add: scenarioA_key_def exam_key_def)
  have f: "filter (\<lambda>(q, v). 1 \<le> q \<and> q \<le> 100) sheet_with_101 = sheet_without_101"
    by (simp add: sheet_with_101_def sheet_without_101_def)
  have m: "map_of sheet_with_101 101 = Some (JStr ''B'')"
    by (simp add: sheet_with_101_def)
  have e: "\<exists>r. score (JObj sheet_with_101) scenarioA_key = Inr r
          \<and> score (JObj sheet_without_101) scenarioA_key = Inr r"
    using score_ignores_out_of_range [OF k, of sheet_with_101] unfolding f .
  from k m f e show ?thesis by (intro conjI)
qed

text \<open>
  C6 as stated fails on a key of 100 questions and a sheet that declares question
  101: \<open>score\<close> does not fail, it returns the total 1 for the matching answer at
  question 1.
\<close>

theorem score_out_of_range_counterexample:
  "totalQuestions (exam_key 100 (all_A 100) form_subjects) = 100
   \<and> read (JObj sheet_with_101) 101 = JStr ''B''
   \<and> map_sum id totalScore (score (JObj sheet_with_101) (exam_key 100 (all_A 100) form_subjects))
       = Inr 1"
proof -
  let ?k = "exam_key 100 (all_A 100) form_subjects"
  have a: "answers ?k = all_A 100" by (simp add: exam_key_def)
  have n: "\<not> nullish (answers ?k)" unfolding a by (simp add: all_A_def)
  have d: "\<not> nullish (JObj sheet_with_101)" by simp
  have rd: "\<And>q. read (JObj sheet_with_101) q =
      (if q = 1 then JStr ''A'' else if q = 101 then JStr ''B'' else JUndefined)"
    by (simp add: read_def sheet_with_101_def)
  have "{q \<in> {1..100}. answered_correctly (JObj sheet_with_101) (all_A 100) q} = {1::nat}"
    by (auto simp: answered_correctly_def read_all_A rd split: if_splits)
  then have cnt: "int (card {q \<in> {1..100}. answered_correctly (JObj sheet_with_101) (all_A 100) q}) = 1"
    by simp
  obtain r where r: "score (JObj sheet_with_101) ?k = Inr r"
    and t: "totalScore r = int (card {q \<in> {1..100}. answered_correctly (JObj sheet_with_101) (answers ?k) q})"
    using score_returns [OF d n] by blast
  have p1: "totalQuestions ?k = 100" by (simp add: exam_key_def)
  have p2: "read (JObj sheet_with_101) 101 = JStr ''B''" by (simp add: rd)
  have p3: "map_sum id totalScore (score (JObj sheet_with_101) ?k) = Inr 1"
    unfolding r using t cnt by (simp add: a)
  from p1 p2 p3 show ?thesis by (intro conjI)
qed

subsection \<open>C9: only the questions 1..100 are read\<close>

text \<open>
  C9. Two sheets that agree on the reads \<^verbatim>\<open>detectedAnswers[q]\<close> at every \<open>q\<close> in
  \<open>1..100\<close> get the same result from \<open>calculateScores\<close>, total and subject
  scores alike (and the same exception, where the reads throw): entries at other
  question numbers have no influence, and raise no error.
\<close>

theorem calculateScores_depends_on_1_to_100:
  assumes "\<forall>q\<in>{1..100}. get_prop detected1 q = get_prop detected2 q"
  shows "calculateScores detected1 correctAnswers = calculateScores detected2 correctAnswers"
  using assms by (intro calculateScores_agree) simp

theorem calculateScores_depends_on_1_to_100_witness:
  "map (get_prop (JObj sheet_with_101)) [1..<101]
     = map (get_prop (JObj sheet_without_101)) [1..<101]
   \<and> get_prop (JObj sheet_with_101) 101 \<noteq> get_prop (JObj sheet_without_101) 101
   \<and> calculateScores (JObj sheet_with_101) (answers scenarioA_key)
       = calculateScores (JObj sheet_without_101) (answers scenarioA_key)"
proof -
  have h: "\<forall>q\<in>{1..100}. get_prop (JObj sheet_with_101) q = get_prop (JObj sheet_without_101) q"
    by (simp add: sheet_with_101_def sheet_without_101_def)
  have n: "get_prop (JObj sheet_with_101) 101 \<noteq> get_prop (JObj sheet_without_101) 101"
    by (simp add: sheet_with_101_def sheet_without_101_def)
  have m: "map (get_prop (JObj sheet_with_101)) [1..<101]
     = map (get_prop (JObj sheet_without_101)) [1..<101]"
    using h by (intro map_cong refl) auto
  from m n calculateScores_depends_on_1_to_100 [OF h, of "answers scenarioA_key"]
  show ?thesis by (intro conjI)
qed

lemma compare_step_returns:
  "\<not> nullish d \<Longrightarrow> \<not> nullish c \<Longrightarrow> \<exists>es'. compare_step d c q es = Inr es'"
  by (simp add: compare_step_def get_prop_read)

lemma fold_compare_step:
  "\<not> nullish d \<Longrightarrow> \<not> nullish c \<Longrightarrow>
   fold (run (compare_step d c)) qs es =
     es @ map (\<lambda>q. make_entry q (read d q) (read c q)) qs"
  by (induction qs arbitrary: es) (simp_all add: run_def compare_step_def get_prop_read)

lemma generateAnswerComparison_map:
  assumes "\<not> nullish d" "\<not> nullish c"
  shows "generateAnswerComparison d c s =
     Inr (map (\<lambda>q. make_entry q (read d q) (read c q)) [1..<Suc 100])"
proof -
  have "generateAnswerComparison d c s = Inr (fold (run (compare_step d c)) [1..<Suc 100] [])"
    unfolding generateAnswerComparison_def
    by (rule for_loop_total) (rule compare_step_returns [OF assms])
  then show ?thesis by (simp only: fold_compare_step [OF assms] append_Nil)
qed

lemma generateAnswerComparison_throws:
  "nullish d \<or> nullish c \<Longrightarrow> generateAnswerComparison d c s = Inl TypeError"
proof -
  assume n: "nullish d \<or> nullish c"
  have "compare_step d c 1 [] = Inl TypeError"
  proof (cases "nullish d")
    case True
    then show ?thesis by (simp add: compare_step_def get_prop_nullish)
  next
    case False
    with n have "nullish c" by simp
    with False show ?thesis by (simp add: compare_step_def get_prop_nullish get_prop_read)
  qed
  then show ?thesis unfolding generateAnswerComparison_def by (intro for_loop_throws) simp_all
qed

lemma make_entry_fields:
  "questionNumber (make_entry q x y) = q"
  "detectedAnswer (make_entry q x y) = x"
  "correctAnswer (make_entry q x y) = y"
  by (simp_all add: make_entry_def Let_def)

lemma make_entry_status:
  "status (make_entry q x y) =
     (if \<not> truthy x then ''undetected'' else if strict_eq x y then ''correct'' else ''incorrect'')"
  by (simp add: make_entry_def Let_def)

lemma make_entry_isCorrect:
  "isCorrect (make_entry q x y) = JBool True \<longleftrightarrow> truthy x \<and> strict_eq x y"
  by (cases x) (simp_all add: make_entry_def Let_def)

lemma nullish_not_truthy: "nullish x \<Longrightarrow> \<not> truthy x"
  by (cases x) simp_all

lemma strict_eq_JStr: "strict_eq (JStr s) y \<longleftrightarrow> JStr s = y"
  by (cases y) simp_all

lemma entry_subject_ranges:
  "1 \<le> q \<Longrightarrow> q \<le> 100 \<Longrightarrow> subject_at q = Some (entry_subject (make_entry q x y))"
  by (simp add: subject_at_def subjectRanges_def make_entry_def Let_def)

lemma fold_simulate_step:
  "map_of (fold (run (simulate_step e)) qs sheet) q =
     (if q \<in> set qs then Some (drawn_answer e q) else map_of sheet q)"
  by (induction qs arbitrary: sheet) (auto simp: run_def simulate_step_def update_conv')

lemma simulateOMRProcessing_sheet:
  "\<exists>sheet. simulateOMRProcessing e = Inr (JObj sheet)
     \<and> (\<forall>q. map_of sheet q = (if 1 \<le> q \<and> q \<le> 100 then Some (drawn_answer e q) else None))"
proof -
  let ?sheet = "fold (run (simulate_step e)) [1..<Suc 100] []"
  have "for_loop 1 100 (simulate_step e) [] = Inr ?sheet"
    by (rule for_loop_total) (simp add: simulate_step_def)
  then have s: "simulateOMRProcessing e = Inr (JObj ?sheet)"
    by (simp add: simulateOMRProcessing_def)
  have "\<forall>q. map_of ?sheet q = (if 1 \<le> q \<and> q \<le> 100 then Some (drawn_answer e q) else None)"
    by (auto simp: fold_simulate_step simp del: upt_Suc)
  with s show ?thesis by (intro exI [of _ ?sheet] conjI)
qed

lemma drawn_answer_typed:
  "option_draw e i < 4 \<Longrightarrow>
   drawn_answer e i = JNull \<or> drawn_answer e i \<in> {JStr ''A'', JStr ''B'', JStr ''C'', JStr ''D''}"
proof -
  assume "option_draw e i < 4"
  then have "option_draw e i = 0 \<or> option_draw e i = 1 \<or> option_draw e i = 2 \<or> option_draw e i = 3"
    by arith
  then show ?thesis
    by (auto simp: drawn_answer_def options_def)
qed

lemma simulateOMRProcessing_typed:
  assumes "\<forall>i. option_draw e i < 4"
  shows "\<exists>d. simulateOMRProcessing e = Inr d \<and> \<not> nullish d
    \<and> (\<forall>q\<in>{1..100}. nullish (read d q) \<or> (\<exists>s. s \<noteq> [] \<and> read d q = JStr s))"
proof -
  obtain sheet where s: "simulateOMRProcessing e = Inr (JObj sheet)"
    and m: "\<forall>q. map_of sheet q = (if 1 \<le> q \<and> q \<le> 100 then Some (drawn_answer e q) else None)"
    using simulateOMRProcessing_sheet by blast
  have "\<forall>q\<in>{1..100}. nullish (read (JObj sheet) q) \<or> (\<exists>s. s \<noteq> [] \<and> read (JObj sheet) q = JStr s)"
  proof
    fix q :: nat assume "q \<in> {1..100}"
    then have r: "read (JObj sheet) q = drawn_answer e q"
      using m by (simp add: read_def)
    from assms have "option_draw e q < 4" by simp
    from drawn_answer_typed [OF this]
    show "nullish (read (JObj sheet) q) \<or> (\<exists>s. s \<noteq> [] \<and> read (JObj sheet) q = JStr s)"
      unfolding r by auto
  qed
  with s show ?thesis by (intro exI [of _ "JObj sheet"] conjI) simp_all
qed


lemma read_scenarioB:
  "read scenarioB_detected q =
     (if q = 1 then JNull else if q = 2 then JStr ''B'' else JUndefined)"
  by (simp add: read_def scenarioB_detected_def)

subsection \<open>C7: the entries of the comparison\<close>

text \<open>
  C7, as amended. The loop of \<open>generateAnswerComparison\<close> runs over the fixed
  questions \<open>1..100\<close>, whatever \<open>totalQuestions\<close> of the key is. For a sheet and a
  key whose answers are not null, \<open>compare\<close> returns exactly one entry per question
  of \<open>1..100\<close>, in ascending order of the question number: 100 entries.
\<close>

theorem compare_entries_1_to_100:
  assumes "\<not> nullish detected" and "\<not> nullish (answers answerKey)"
  shows "\<exists>es. compare detected answerKey = Inr es
    \<and> map questionNumber es = [1..<101] \<and> length es = 100"
proof -
  let ?es = "map (\<lambda>q. make_entry q (read detected q) (read (answers answerKey) q)) [1..<Suc 100]"
  have c: "compare detected answerKey = Inr ?es"
    unfolding compare_def by (rule generateAnswerComparison_map [OF assms])
  have m: "map questionNumber ?es = [1..<101]"
    by (simp add: make_entry_fields comp_def del: upt_Suc)
  have l: "length ?es = 100" by simp
  from c m l show ?thesis by (intro exI [of _ ?es] conjI)
qed

theorem compare_entries_1_to_100_witness:
  "\<not> nullish scenarioA_detected \<and> \<not> nullish (answers scenarioA_key)
   \<and> (\<exists>es. compare scenarioA_detected scenarioA_key = Inr es
         \<and> map questionNumber es = [1..<101] \<and> length es = 100)"
proof -
  have d: "\<not> nullish scenarioA_detected"
    by (simp add: scenarioA_detected_def)
  have k: "\<not> nullish (answers scenarioA_key)"
    by (simp add: scenarioA_key_def exam_key_def)
  from d k compare_entries_1_to_100 [OF d k] show ?thesis by (intro conjI)
qed

text \<open>
  C7 as stated fails on scenario A of the specification: the key has two
  questions, the comparison has 100 entries.
\<close>

theorem compare_totalQuestions_counterexample:
  "totalQuestions scenarioA_key = 2
   \<and> map_sum id length (compare scenarioA_detected scenarioA_key) = Inr 100"
proof -
  have d: "\<not> nullish scenarioA_detected"
    by (simp add: scenarioA_detected_def)
  have k: "\<not> nullish (answers scenarioA_key)"
    by (simp add: scenarioA_key_def exam_key_def)
  have p1: "totalQuestions scenarioA_key = 2"
    by (simp add: scenarioA_key_def exam_key_def)
  have p2: "map_sum id length (compare scenarioA_detected scenarioA_key) = Inr 100"
    unfolding compare_def generateAnswerComparison_map [OF d k] by simp
  from p1 p2 show ?thesis by (intro conjI)
qed

subsection \<open>C8: the status of an entry\<close>






text \<open>
  On the sheets of the data model, whose detected answers are the undetected
  marker or a non-empty answer string (all that \<open>simulateOMRProcessing\<close> yields,
  lemma \<open>simulateOMRProcessing_typed\<close>), falsy and null coincide and strict
  equality is equality.
\<close>

lemma compare_status_data_model:
  assumes "\<not> nullish detected" and "\<not> nullish (answers answerKey)"
    and "\<forall>q\<in>{1..100}. nullish (read detected q) \<or> (\<exists>s. s \<noteq> [] \<and> read detected q = JStr s)"
  shows "\<exists>es. compare detected answerKey = Inr es \<and> (\<forall>e\<in>set es.
      (status e = ''undetected'' \<longleftrightarrow> nullish (detectedAnswer e))
    \<and> (\<not> nullish (detectedAnswer e) \<longrightarrow>
          (status e = ''correct'' \<longleftrightarrow> detectedAnswer e = correctAnswer e)
        \<and> (status e = ''incorrect'' \<longleftrightarrow> detectedAnswer e \<noteq> correctAnswer e))
    \<and> status e \<in> {''correct'', ''incorrect'', ''undetected''}
    \<and> (isCorrect e = JBool True \<longleftrightarrow> status e = ''correct''))"
proof -
  let ?es = "map (\<lambda>q. make_entry q (read detected q) (read (answers answerKey) q)) [1..<Suc 100]"
  have c: "compare detected answerKey = Inr ?es"
    unfolding compare_def by (rule generateAnswerComparison_map [OF assms(1,2)])
  have one: "(status (make_entry q x y) = ''undetected'' \<longleftrightarrow> nullish x)
    \<and> (\<not> nullish x \<longrightarrow>
          (status (make_entry q x y) = ''correct'' \<longleftrightarrow> x = y)
        \<and> (status (make_entry q x y) = ''incorrect'' \<longleftrightarrow> x \<noteq> y))
    \<and> status (make_entry q x y) \<in> {''correct'', ''incorrect'', ''undetected''}
    \<and> (isCorrect (make_entry q x y) = JBool True \<longleftrightarrow> status (make_entry q x y) = ''correct'')"
    if "nullish x \<or> (\<exists>s. s \<noteq> [] \<and> x = JStr s)" for q x y
    using that
    by (auto simp: make_entry_status make_entry_isCorrect strict_eq_JStr
        dest: nullish_not_truthy)
  have "\<forall>e\<in>set ?es.
      (status e = ''undetected'' \<longleftrightarrow> nullish (detectedAnswer e))
    \<and> (\<not> nullish (detectedAnswer e) \<longrightarrow>
          (status e = ''correct'' \<longleftrightarrow> detectedAnswer e = correctAnswer e)
        \<and> (status e = ''incorrect'' \<longleftrightarrow> detectedAnswer e \<noteq> correctAnswer e))
    \<and> status e \<in> {''correct'', ''incorrect'', ''undetected''}
    \<and> (isCorrect e = JBool True \<longleftrightarrow> status e = ''correct'')"
  proof
    fix e assume "e \<in> set ?es"
    then obtain q where "q \<in> set [1..<Suc 100]"
      and e: "e = make_entry q (read detected q) (read (answers answerKey) q)"
      unfolding set_map by blast
    then have q: "q \<in> {1..100}" by auto
    from assms(3) q have "nullish (read detected q) \<or> (\<exists>s. s \<noteq> [] \<and> read detected q = JStr s)"
      by blast
    from one [OF this, of q "read (answers answerKey) q"]
    show "(status e = ''undetected'' \<longleftrightarrow> nullish (detectedAnswer e))
    \<and> (\<not> nullish (detectedAnswer e) \<longrightarrow>
          (status e = ''correct'' \<longleftrightarrow> detectedAnswer e = correctAnswer e)
        \<and> (status e = ''incorrect'' \<longleftrightarrow> detectedAnswer e \<noteq> correctAnswer e))
    \<and> status e \<in> {''correct'', ''incorrect'', ''undetected''}
    \<and> (isCorrect e = JBool True \<longleftrightarrow> status e = ''correct'')"
      unfolding e make_entry_fields .
  qed
  with c show ?thesis by (intro exI [of _ ?es] conjI)
qed

subsection \<open>C10: the subjects argument\<close>

text \<open>
  C10. \<open>generateAnswerComparison\<close> never reads its third argument: with the same
  sheet and the same correct answers, any two values of \<open>subjects\<close>, of whatever
  type, give the same output. (The label of an entry comes from the thresholds
  20, 40, 60 and 80 on the question number, which are the ranges 1-20, 21-40,
  41-60, 61-80 and 81-100 of \<open>subjectRanges\<close>: lemma \<open>entry_subject_ranges\<close>.)
\<close>

theorem generateAnswerComparison_ignores_subjects:
  "generateAnswerComparison detected correctAnswers subjects1
     = generateAnswerComparison detected correctAnswers subjects2"
  by (simp add: generateAnswerComparison_def)

subsection \<open>C3: the record written by the process-omr handler\<close>

lemma process_omr_succeeds:
  assumes "truthy (req_studentName body)" "truthy (req_rollNumber body)"
    and "req_imageData body = JStr img" "img \<noteq> []"
    and "\<not> truthy (req_answerKeyId body) \<or> kv_get kv (req_answerKeyId body) = None
         \<or> (\<exists>ak. kv_get kv (req_answerKeyId body) = Some ak \<and> \<not> nullish (answers_of ak))"
  shows "\<exists>ev. process_omr kv e body =
           (kv_set kv (''evaluation_'' @ date_now e) (EvaluationData ev), Success ev)"
proof -
  obtain sheet where s: "simulateOMRProcessing e = Inr (JObj sheet)"
    using simulateOMRProcessing_sheet by blast
  have "\<exists>ev. process_omr_body kv e body = Inr ev \<and> evaluation_id ev = ''evaluation_'' @ date_now e"
  proof (cases "truthy (req_answerKeyId body) \<and> kv_get kv (req_answerKeyId body) \<noteq> None")
    case True
    then obtain ak where ak: "kv_get kv (req_answerKeyId body) = Some ak" "\<not> nullish (answers_of ak)"
      using assms(5) by auto
    have "\<not> nullish (JObj sheet)" by simp
    from calculateScores_fold [OF this ak(2)]
    obtain r where "calculateScores (JObj sheet) (answers_of ak) = Inr r" by blast
    then show ?thesis
      using True ak s assms(3) by (simp add: process_omr_body_def)
  next
    case False
    then show ?thesis
      using s assms(3) by (auto simp: process_omr_body_def)
  qed
  then obtain ev where "process_omr_body kv e body = Inr ev"
    "evaluation_id ev = ''evaluation_'' @ date_now e" by blast
  then have "process_omr kv e body =
           (kv_set kv (''evaluation_'' @ date_now e) (EvaluationData ev), Success ev)"
    using assms(1-4) by (simp add: process_omr_def)
  then show ?thesis by (rule exI [of _ ev])
qed

lemma process_omr_body_record:
  "process_omr_body kv e body = Inr ev \<Longrightarrow>
   eval_status ev = ''completed''
   \<and> ((evaluation ev \<noteq> None) =
        (truthy (req_answerKeyId body) \<and> kv_get kv (req_answerKeyId body) \<noteq> None))"
  by (auto simp: process_omr_body_def Let_def split: sum.splits option.splits if_splits)

text \<open>
  C3, as amended. The handler scores only when an answer key is found under the
  \<open>answerKeyId\<close> of the request, and it writes the status \<^verbatim>\<open>'completed'\<close> in
  every record; no status \<^verbatim>\<open>'error'\<close> exists in the server. When the handler
  answers with success, the store is the old store with the one record set under
  its id; the record has the status \<^verbatim>\<open>'completed'\<close>; and its result (the field
  \<open>evaluation\<close>) is populated exactly when an answer key id was given and the
  store held a value under it, and is \<^verbatim>\<open>null\<close> otherwise. When the handler
  answers with a failure (400 or 500), the store is unchanged: nothing is
  written. So a populated result never comes without the status \<^verbatim>\<open>'completed'\<close>.
\<close>

theorem process_omr_record:
  "(case process_omr kv e body of
      (kv', Success ev) \<Rightarrow>
        kv' = kv_set kv (evaluation_id ev) (EvaluationData ev)
        \<and> eval_status ev = ''completed''
        \<and> ((evaluation ev \<noteq> None) =
             (truthy (req_answerKeyId body) \<and> kv_get kv (req_answerKeyId body) \<noteq> None))
    | (kv', Failure code msg) \<Rightarrow> kv' = kv)"
proof (cases "process_omr_body kv e body")
  case (Inl err)
  then show ?thesis by (simp add: process_omr_def)
next
  case (Inr ev)
  from process_omr_body_record [OF Inr] Inr show ?thesis
    by (simp add: process_omr_def)
qed

lemma stored_evaluation_set:
  "stored_evaluation (kv_set kv k (EvaluationData ev)) k = Some ev"
  by (simp add: stored_evaluation_def kv_set_def)

theorem process_omr_record_witness:
  "map_option eval_status
     (stored_evaluation
        (fst (process_omr store_with_key env_A (submission (JStr ''answer_key_1''))))
        ''evaluation_1700000000000'') = Some ''completed''
   \<and> (\<exists>r. map_option evaluation
         (stored_evaluation
            (fst (process_omr store_with_key env_A (submission (JStr ''answer_key_1''))))
            ''evaluation_1700000000000'') = Some (Some r))"
proof -
  let ?body = "submission (JStr ''answer_key_1'')"
  have g: "kv_get store_with_key (req_answerKeyId ?body) = Some (AnswerKeyData scenarioA_key)"
    by (simp add: kv_get_def store_with_key_def kv_set_def submission_def)
  have n: "\<not> nullish (answers_of (AnswerKeyData scenarioA_key))"
    by (simp add: scenarioA_key_def exam_key_def)
  have f: "\<not> truthy (req_answerKeyId ?body) \<or> kv_get store_with_key (req_answerKeyId ?body) = None
         \<or> (\<exists>ak. kv_get store_with_key (req_answerKeyId ?body) = Some ak
                \<and> \<not> nullish (answers_of ak))"
    using g n by blast
  have "\<exists>ev. process_omr store_with_key env_A ?body =
           (kv_set store_with_key (''evaluation_'' @ date_now env_A) (EvaluationData ev), Success ev)"
    by (rule process_omr_succeeds [where img = "''data:image/png;base64,AAAA''", OF _ _ _ _ f])
       (simp_all add: submission_def)
  then obtain ev where p: "process_omr store_with_key env_A ?body =
      (kv_set store_with_key ''evaluation_1700000000000'' (EvaluationData ev), Success ev)"
    by (auto simp: env_A_def)
  from process_omr_record [where kv = store_with_key and e = env_A and body = ?body]
  have "eval_status ev = ''completed'' \<and> evaluation ev \<noteq> None"
    unfolding p using g by (simp add: submission_def)
  then show ?thesis
    unfolding p by (auto simp: stored_evaluation_set)
qed

text \<open>
  C3 as stated fails on a submission without an answer key id: the record written
  has the status \<^verbatim>\<open>'completed'\<close> and the result \<^verbatim>\<open>null\<close>.
\<close>

theorem process_omr_no_key_counterexample:
  "map_option eval_status
     (stored_evaluation (fst (process_omr Map.empty env_A (submission JUndefined)))
        ''evaluation_1700000000000'') = Some ''completed''
   \<and> map_option evaluation
     (stored_evaluation (fst (process_omr Map.empty env_A (submission JUndefined)))
        ''evaluation_1700000000000'') = Some None"
proof -
  obtain sheet where s: "simulateOMRProcessing env_A = Inr (JObj sheet)"
    using simulateOMRProcessing_sheet by blast
  have b: "process_omr_body Map.empty env_A (submission JUndefined) =
     Inr \<lparr>evaluation_id = ''evaluation_1700000000000'',
          studentName = JStr ''Ann'',
          rollNumber = JStr ''7'',
          examDate = JStr ''2023-11-14'',
          detectedAnswers = JObj sheet,
          answerKeyId = JUndefined,
          evaluation = None,
          imageData = ''data:image/png;base64,AAAA...'',
          eval_status = ''completed'',
          processingTime = ''2.0s'',
          processedAt = ''2023-11-14T22:13:20.000Z''\<rparr>"
    unfolding process_omr_body_def s by (simp add: Let_def submission_def env_A_def)
  show ?thesis
    by (simp add: process_omr_def b stored_evaluation_set) (simp add: submission_def)
qed

subsection \<open>C5: what the upload of an answer key checks\<close>

text \<open>
  C5, as amended. The handler of the upload checks only that \<open>examName\<close>,
  \<open>setVersion\<close> and \<open>answers\<close> are truthy; it compares nothing with
  \<open>totalQuestions\<close>, and there is no InvalidAnswerError in the server. It answers
  with success exactly when the three fields are truthy, and then stores the key
  with the \<open>totalQuestions\<close>, \<open>answers\<close> and \<open>subjects\<close> of the request as they
  are; otherwise it answers 400 \<^verbatim>\<open>'Missing required fields'\<close> and leaves the store
  unchanged.
\<close>

theorem post_answer_keys_checks:
  "(case post_answer_keys kv e body of
      (kv', Success newId) \<Rightarrow>
        truthy (req_examName body) \<and> truthy (req_setVersion body) \<and> truthy (req_answers body)
        \<and> (\<exists>ak. kv' = kv_set kv newId (AnswerKeyData ak)
              \<and> key_id ak = newId
              \<and> totalQuestions ak = req_totalQuestions body
              \<and> answers ak = req_answers body
              \<and> subjects ak = req_subjects body)
    | (kv', Failure code msg) \<Rightarrow>
        kv' = kv \<and> code = 400 \<and> msg = ''Missing required fields''
        \<and> (\<not> truthy (req_examName body) \<or> \<not> truthy (req_setVersion body)
            \<or> \<not> truthy (req_answers body)))"
  by (auto simp: post_answer_keys_def Let_def)

lemma stored_key_set:
  "stored_key (kv_set kv k (AnswerKeyData ak)) k = Some ak"
  by (simp add: stored_key_def kv_set_def)

lemma length_missing_50: "length missing_50 = 99"
  by code_simp

lemma map_of_missing_50: "map_of missing_50 50 = None"
  by (simp add: missing_50_def map_of_const_keys)

theorem post_answer_keys_checks_witness:
  "snd (post_answer_keys Map.empty env_A upload_missing_50) = Success ''answer_key_1700000000000''
   \<and> (\<exists>ak. fst (post_answer_keys Map.empty env_A upload_missing_50) =
              kv_set Map.empty ''answer_key_1700000000000'' (AnswerKeyData ak)
          \<and> totalQuestions ak = 100 \<and> answers ak = JObj missing_50)"
proof -
  have s: "snd (post_answer_keys Map.empty env_A upload_missing_50) =
      Success ''answer_key_1700000000000''"
    by (simp add: post_answer_keys_def Let_def upload_missing_50_def env_A_def)
  obtain kv' where p: "post_answer_keys Map.empty env_A upload_missing_50 =
      (kv', Success ''answer_key_1700000000000'')"
    using s by (cases "post_answer_keys Map.empty env_A upload_missing_50") simp
  from post_answer_keys_checks [where kv = Map.empty and e = env_A and body = upload_missing_50]
  have "\<exists>ak. kv' = kv_set Map.empty ''answer_key_1700000000000'' (AnswerKeyData ak)
          \<and> totalQuestions ak = 100 \<and> answers ak = JObj missing_50"
    unfolding p by (auto simp: upload_missing_50_def)
  with s show ?thesis unfolding p by simp
qed

text \<open>
  C5 as stated fails on scenario C of the specification: the key of 100 questions
  with 99 entries, none for question 50, is accepted and stored.
\<close>

theorem post_answer_keys_missing_entry_counterexample:
  "req_totalQuestions upload_missing_50 = 100
   \<and> req_answers upload_missing_50 = JObj missing_50
   \<and> length missing_50 = 99
   \<and> map_of missing_50 50 = None
   \<and> snd (post_answer_keys Map.empty env_A upload_missing_50) = Success ''answer_key_1700000000000''
   \<and> map_option answers
       (stored_key (fst (post_answer_keys Map.empty env_A upload_missing_50))
          ''answer_key_1700000000000'') = Some (JObj missing_50)"
proof -
  have p1: "req_totalQuestions upload_missing_50 = 100"
    by (simp add: upload_missing_50_def)
  have p2: "req_answers upload_missing_50 = JObj missing_50"
    by (simp add: upload_missing_50_def)
  have p: "post_answer_keys Map.empty env_A upload_missing_50 =
     (kv_set Map.empty ''answer_key_1700000000000''
        (AnswerKeyData
           \<lparr>key_id = ''answer_key_1700000000000'', examName = JStr ''Exam'',
            setVersion = JStr ''A'', totalQuestions = 100, answers = JObj missing_50,
            subjects = form_subjects, uploadDate = ''2023-11-14T22:13:20.000Z''\<rparr>),
      Success ''answer_key_1700000000000'')"
    by (simp add: post_answer_keys_def Let_def upload_missing_50_def env_A_def)
  have p5: "snd (post_answer_keys Map.empty env_A upload_missing_50) =
      Success ''answer_key_1700000000000''"
    unfolding p by simp
  have p6: "map_option answers
       (stored_key (fst (post_answer_keys Map.empty env_A upload_missing_50))
          ''answer_key_1700000000000'') = Some (JObj missing_50)"
    unfolding p by (simp add: stored_key_set)
  from p1 p2 length_missing_50 map_of_missing_50 p5 p6 show ?thesis by (intro conjI)
qed

end
